theory Spec2Isabelle
  imports Complex_Main
begin

section \<open>Exceptions and numpy arrays\<close>

text \<open>The Python exceptions that the node's code can raise; a raising call is the
  \<open>Inl\<close> branch of a sum.\<close>

datatype error = ValueError | IndexError | AttributeError

text \<open>A two-dimensional numpy array: its shape and its cells in row-major order.\<close>

record ndarray =
  nrows :: nat
  ncols :: nat
  cells :: "int list"

text \<open>\<open>np.array(data).reshape((height, width))\<close>: raises ValueError unless the number of
  cells is \<open>height * width\<close>.\<close>

definition reshape :: "int list \<Rightarrow> nat \<times> nat \<Rightarrow> error + ndarray" where
  "reshape d shp = (case shp of (h, w) \<Rightarrow>
     if length d = h * w then Inr \<lparr>nrows = h, ncols = w, cells = d\<rparr> else Inl ValueError)"

text \<open>\<open>a[r, c]\<close> for non-negative indices: IndexError outside the shape.\<close>

definition getitem :: "ndarray \<Rightarrow> nat \<times> nat \<Rightarrow> error + int" where
  "getitem a rc = (case rc of (r, c) \<Rightarrow>
     if r < nrows a \<and> c < ncols a then Inr (cells a ! (r * ncols a + c)) else Inl IndexError)"

text \<open>\<open>a[r0:r1, c0:c1].flatten()\<close> for non-negative bounds: a slice is clipped to the
  shape and never raises.\<close>

definition slice_flatten :: "ndarray \<Rightarrow> nat \<Rightarrow> nat \<Rightarrow> nat \<Rightarrow> nat \<Rightarrow> int list" where
  "slice_flatten a r0 r1 c0 c1 =
     concat (map (\<lambda>i. map (\<lambda>j. cells a ! (i * ncols a + j)) [c0..<min c1 (ncols a)])
                 [r0..<min r1 (nrows a)])"

section \<open>Frontier detection\<close>

text \<open>A frontier is the tuple \<open>(r, c, costmap_array[r, c])\<close>.\<close>

type_synonym frontier = "nat \<times> nat \<times> int"

text \<open>\<open>np.sqrt((robot_row - r)**2 + (robot_col - c)**2)\<close>, over the reals.\<close>

definition distance_to :: "int \<times> int \<Rightarrow> nat \<Rightarrow> nat \<Rightarrow> real" where
  "distance_to rp r c = (case rp of (robot_row, robot_col) \<Rightarrow>
     sqrt (real_of_int ((robot_row - int r)\<^sup>2 + (robot_col - int c)\<^sup>2)))"

text \<open>The inner loop of \<open>find_frontiers\<close>, \<open>for c in range(1, cols - 1)\<close>, over the
  remaining columns, with the list \<open>frontiers\<close> built so far.\<close>

fun find_frontiers_cols ::
  "int \<times> int \<Rightarrow> ndarray \<Rightarrow> ndarray \<Rightarrow> nat \<Rightarrow> nat list \<Rightarrow> frontier list \<Rightarrow> error + frontier list" where
  "find_frontiers_cols rp m cm r [] frontiers = Inr frontiers"
| "find_frontiers_cols rp m cm r (c # cs) frontiers =
     (let distance = distance_to rp r c in
      case getitem m (r, c) of
        Inl e \<Rightarrow> Inl e
      | Inr v \<Rightarrow>
          if v = 0 then
            (let neighbors = slice_flatten m (r - 1) (r + 2) (c - 1) (c + 2) in
             if - 1 \<in> set neighbors then
               (case getitem cm (r, c) of
                  Inl e \<Rightarrow> Inl e
                | Inr k \<Rightarrow> find_frontiers_cols rp m cm r cs (frontiers @ [(r, c, k)]))
             else find_frontiers_cols rp m cm r cs frontiers)
          else find_frontiers_cols rp m cm r cs frontiers)"

text \<open>The outer loop, \<open>for r in range(1, rows - 1)\<close>.\<close>

fun find_frontiers_rows ::
  "int \<times> int \<Rightarrow> ndarray \<Rightarrow> ndarray \<Rightarrow> nat list \<Rightarrow> frontier list \<Rightarrow> error + frontier list" where
  "find_frontiers_rows rp m cm [] frontiers = Inr frontiers"
| "find_frontiers_rows rp m cm (r # rs) frontiers =
     (case find_frontiers_cols rp m cm r [1..<ncols m - 1] frontiers of
        Inl e \<Rightarrow> Inl e
      | Inr frontiers' \<Rightarrow> find_frontiers_rows rp m cm rs frontiers')"

definition find_frontiers :: "int \<times> int \<Rightarrow> ndarray \<Rightarrow> ndarray \<Rightarrow> error + frontier list" where
  "find_frontiers rp map_array costmap_array =
     find_frontiers_rows rp map_array costmap_array [1..<nrows map_array - 1] []"

section \<open>The node and its state\<close>

text \<open>An \<open>OccupancyGrid\<close> message: \<open>info.height\<close>, \<open>info.width\<close>, \<open>info.resolution\<close>,
  \<open>info.origin.position.x\<close>, \<open>info.origin.position.y\<close> and \<open>data\<close>. Resolution and
  origin are floats in the source; they are taken as real numbers, so the rounding of
  float64 arithmetic is not part of the model.\<close>

record OccupancyGrid =
  info_height :: nat
  info_width :: nat
  info_resolution :: real
  info_origin_x :: real
  info_origin_y :: real
  data :: "int list"

text \<open>The fields of \<open>ExplorerNode\<close> set in \<open>__init__\<close>, and what the node has done to the
  outside: the goals handed to the action client by \<open>navigate_to\<close> (in order), whether
  \<open>destroy_node\<close> was called, and the number of calls of \<open>rclpy.shutdown\<close>.\<close>

record ExplorerNode =
  visited_frontiers :: "frontier set"
  map_data :: "OccupancyGrid option"
  costmap_data :: "OccupancyGrid option"
  robot_position :: "int \<times> int"
  goals_sent :: "(real \<times> real) list"
  node_destroyed :: bool
  shutdown_calls :: nat

definition ExplorerNode_init :: ExplorerNode where
  "ExplorerNode_init =
     \<lparr>visited_frontiers = {}, map_data = None, costmap_data = None, robot_position = (0, 0),
      goals_sent = [], node_destroyed = False, shutdown_calls = 0\<rparr>"

definition map_callback :: "ExplorerNode \<Rightarrow> OccupancyGrid \<Rightarrow> ExplorerNode" where
  "map_callback s msg = s\<lparr>map_data := Some msg\<rparr>"

definition costmap_callback :: "ExplorerNode \<Rightarrow> OccupancyGrid \<Rightarrow> ExplorerNode" where
  "costmap_callback s msg = s\<lparr>costmap_data := Some msg\<rparr>"

text \<open>\<open>navigate_to\<close> builds the goal and sends it; the action server is taken to be
  available, so \<open>wait_for_server\<close> returns.\<close>

definition navigate_to :: "ExplorerNode \<Rightarrow> real \<Rightarrow> real \<Rightarrow> ExplorerNode" where
  "navigate_to s x y = s\<lparr>goals_sent := goals_sent s @ [(x, y)]\<rparr>"

text \<open>The two callbacks of the goal's futures only log.\<close>

definition goal_response_callback :: "ExplorerNode \<Rightarrow> bool \<Rightarrow> ExplorerNode" where
  "goal_response_callback s accepted = s"

definition navigation_complete_callback :: "ExplorerNode \<Rightarrow> bool \<Rightarrow> ExplorerNode" where
  "navigation_complete_callback s succeeded = s"

section \<open>Frontier selection\<close>

text \<open>\<open>distance < min_distance\<close>, where \<open>min_distance\<close> starts as \<open>float('inf')\<close>
  (\<open>None\<close>).\<close>

definition less_min_distance :: "real \<Rightarrow> real option \<Rightarrow> bool" where
  "less_min_distance d min_distance = (case min_distance of None \<Rightarrow> True | Some m \<Rightarrow> d < m)"

text \<open>The loop of \<open>choose_frontier\<close> over the remaining frontiers, with the variables
  \<open>min_distance\<close> and \<open>chosen_frontier\<close>. Membership in the visited set compares the whole
  tuple. The condition is Python's \<open>(A and B) or (C and D)\<close>; a frontier tuple is never
  empty, so \<open>chosen_frontier\<close> is true exactly when it is not \<open>None\<close>.\<close>

fun choose_loop ::
  "frontier set \<Rightarrow> int \<times> int \<Rightarrow> frontier list \<Rightarrow> real option \<Rightarrow> frontier option
     \<Rightarrow> real option \<times> frontier option" where
  "choose_loop visited rp [] min_distance chosen_frontier = (min_distance, chosen_frontier)"
| "choose_loop visited rp (frontier # rest) min_distance chosen_frontier =
     (if frontier \<in> visited then choose_loop visited rp rest min_distance chosen_frontier
      else
        (let distance = distance_to rp (fst frontier) (fst (snd frontier)) in
         if (less_min_distance distance min_distance \<and> chosen_frontier = None) \<or>
            (case chosen_frontier of
               None \<Rightarrow> False
             | Some chosen \<Rightarrow> snd (snd frontier) \<le> snd (snd chosen))
         then choose_loop visited rp rest (Some distance) (Some frontier)
         else choose_loop visited rp rest min_distance chosen_frontier))"

definition choose_frontier :: "ExplorerNode \<Rightarrow> frontier list \<Rightarrow> frontier option \<times> ExplorerNode" where
  "choose_frontier s frontiers =
     (case snd (choose_loop (visited_frontiers s) (robot_position s) frontiers None None) of
        None \<Rightarrow> (None, s)
      | Some chosen \<Rightarrow> (Some chosen, s\<lparr>visited_frontiers := insert chosen (visited_frontiers s)\<rparr>))"

section \<open>The exploration tick\<close>

definition shudown_robot :: "ExplorerNode \<Rightarrow> ExplorerNode" where
  "shudown_robot s = s\<lparr>node_destroyed := True, shutdown_calls := shutdown_calls s + 1\<rparr>"

text \<open>Looking up a shutdown method on the node: the class defines it under the name
  \<open>shudown_robot\<close>; an attribute that neither the class nor its base class defines raises
  AttributeError.\<close>

definition getattr_shutdown :: "string \<Rightarrow> error + (ExplorerNode \<Rightarrow> ExplorerNode)" where
  "getattr_shutdown name =
     (if name = ''shudown_robot'' then Inr shudown_robot else Inl AttributeError)"

text \<open>\<open>explore\<close>, the timer callback. An exception leaves the callback (\<open>Inl\<close>); every
  raising call comes before the first change of the state.\<close>

definition explore :: "ExplorerNode \<Rightarrow> error + ExplorerNode" where
  "explore s =
     (case map_data s of
        None \<Rightarrow> Inr s
      | Some md \<Rightarrow>
     (case costmap_data s of
        None \<Rightarrow> Inr s
      | Some cd \<Rightarrow>
     (case reshape (data md) (info_height md, info_width md) of
        Inl e \<Rightarrow> Inl e
      | Inr map_array \<Rightarrow>
     (case reshape (data cd) (info_height cd, info_width cd) of
        Inl e \<Rightarrow> Inl e
      | Inr costmap_array \<Rightarrow>
     (case find_frontiers (robot_position s) map_array costmap_array of
        Inl e \<Rightarrow> Inl e
      | Inr frontiers \<Rightarrow>
          if frontiers = [] then
            (case getattr_shutdown ''shutdown_robot'' of
               Inl e \<Rightarrow> Inl e
             | Inr shutdown_robot \<Rightarrow> Inr (shutdown_robot s))
          else
            (case choose_frontier s frontiers of
               (None, s') \<Rightarrow> Inr s'
             | (Some chosen_frontier, s') \<Rightarrow>
                 (let goal_x = real (fst (snd chosen_frontier)) * info_resolution md
                                 + info_origin_x md;
                      goal_y = real (fst chosen_frontier) * info_resolution md
                                 + info_origin_y md
                  in Inr (navigate_to s' goal_x goal_y))))))))"

section \<open>Sessions\<close>

text \<open>What the executor delivers to the node: a message on either topic, a firing of
  the timer, or the completion of one of the goal's futures.\<close>

datatype event =
    MapMsg OccupancyGrid
  | CostmapMsg OccupancyGrid
  | TimerTick
  | GoalResponse bool
  | NavigationComplete bool

fun step :: "event \<Rightarrow> ExplorerNode \<Rightarrow> error + ExplorerNode" where
  "step (MapMsg msg) s = Inr (map_callback s msg)"
| "step (CostmapMsg msg) s = Inr (costmap_callback s msg)"
| "step TimerTick s = explore s"
| "step (GoalResponse accepted) s = Inr (goal_response_callback s accepted)"
| "step (NavigationComplete succeeded) s = Inr (navigation_complete_callback s succeeded)"

text \<open>A session runs the events in order and ends at the first exception.\<close>

fun run :: "event list \<Rightarrow> ExplorerNode \<Rightarrow> error + ExplorerNode" where
  "run [] s = Inr s"
| "run (e # es) s = (case step e s of Inl err \<Rightarrow> Inl err | Inr s' \<Rightarrow> run es s')"

text \<open>Repeated calls of \<open>choose_frontier\<close>, one per detected frontier list, with what each
  call returned.\<close>

fun choose_all :: "ExplorerNode \<Rightarrow> frontier list list \<Rightarrow> frontier option list \<times> ExplorerNode" where
  "choose_all s [] = ([], s)"
| "choose_all s (frontiers # rest) =
     (case choose_frontier s frontiers of
        (chosen, s') \<Rightarrow> (case choose_all s' rest of (cs, s'') \<Rightarrow> (chosen # cs, s'')))"

section \<open>Vocabulary of the properties\<close>

definition cell :: "ndarray \<Rightarrow> nat \<Rightarrow> nat \<Rightarrow> int" where
  "cell a r c = cells a ! (r * ncols a + c)"

definition neighbors8 :: "nat \<Rightarrow> nat \<Rightarrow> (nat \<times> nat) list" where
  "neighbors8 r c = [(r - 1, c - 1), (r - 1, c), (r - 1, c + 1),
                     (r, c - 1), (r, c + 1),
                     (r + 1, c - 1), (r + 1, c), (r + 1, c + 1)]"

text \<open>An interior cell of the map that is free and has an unknown cell among its eight
  neighbours.\<close>

definition frontier_cell :: "ndarray \<Rightarrow> nat \<Rightarrow> nat \<Rightarrow> bool" where
  "frontier_cell m r c \<longleftrightarrow>
     1 \<le> int r \<and> int r \<le> int (nrows m) - 2 \<and> 1 \<le> int c \<and> int c \<le> int (ncols m) - 2 \<and>
     cell m r c = 0 \<and> (\<exists>p \<in> set (neighbors8 r c). cell m (fst p) (snd p) = - 1)"

text \<open>Row-major order on frontiers: by row, then by column.\<close>

definition row_major_less :: "frontier \<Rightarrow> frontier \<Rightarrow> bool" where
  "row_major_less f g \<longleftrightarrow>
     fst f < fst g \<or> (fst f = fst g \<and> fst (snd f) < fst (snd g))"

text \<open>The 5 by 5 map of the scenarios, free everywhere but unknown at \<open>(2, 2)\<close>, and a
  costmap of the same shape with cost 0 everywhere.\<close>

definition scenario_map :: ndarray where
  "scenario_map = \<lparr>nrows = 5, ncols = 5,
     cells = [0, 0, 0, 0, 0,  0, 0, 0, 0, 0,  0, 0, - 1, 0, 0,  0, 0, 0, 0, 0,  0, 0, 0, 0, 0]\<rparr>"

definition scenario_costmap :: ndarray where
  "scenario_costmap = \<lparr>nrows = 5, ncols = 5, cells = replicate 25 0\<rparr>"

definition scenario_frontiers :: "frontier list" where
  "scenario_frontiers =
     [(1, 1, 0), (1, 2, 0), (1, 3, 0), (2, 1, 0), (2, 3, 0), (3, 1, 0), (3, 2, 0), (3, 3, 0)]"

text \<open>Messages and node states used as concrete inputs: a fully explored 3 by 3 grid,
  the scenario grids as messages with resolution 0.05 and origin \<open>(-1, -1)\<close>, a 3 by 3 map
  with one frontier next to costmaps of other shapes, and the node after it has received
  a map and a costmap.\<close>

definition complete_grid :: OccupancyGrid where
  "complete_grid = \<lparr>info_height = 3, info_width = 3, info_resolution = 0.05,
     info_origin_x = - 1, info_origin_y = - 1, data = replicate 9 0\<rparr>"

definition scenario_grid :: "int list \<Rightarrow> OccupancyGrid" where
  "scenario_grid d = \<lparr>info_height = 5, info_width = 5, info_resolution = 0.05,
     info_origin_x = - 1, info_origin_y = - 1, data = d\<rparr>"

definition mismatch_map :: OccupancyGrid where
  "mismatch_map = \<lparr>info_height = 3, info_width = 3, info_resolution = 1,
     info_origin_x = 0, info_origin_y = 0, data = [0, 0, 0,  0, 0, - 1,  0, 0, 0]\<rparr>"

definition mismatch_costmap :: OccupancyGrid where
  "mismatch_costmap = \<lparr>info_height = 4, info_width = 4, info_resolution = 1,
     info_origin_x = 0, info_origin_y = 0,
     data = [0, 1, 2, 3,  4, 5, 6, 7,  8, 9, 10, 11,  12, 13, 14, 15]\<rparr>"

definition small_costmap :: OccupancyGrid where
  "small_costmap = \<lparr>info_height = 1, info_width = 1, info_resolution = 1,
     info_origin_x = 0, info_origin_y = 0, data = [7]\<rparr>"

definition with_grids :: "OccupancyGrid \<Rightarrow> OccupancyGrid \<Rightarrow> ExplorerNode" where
  "with_grids m c = costmap_callback (map_callback ExplorerNode_init m) c"

text \<open>What one pass of the scan does at a cell: its test, the frontiers of a row, and
  whether the row raises.\<close>

definition scan_hit :: "ndarray \<Rightarrow> nat \<Rightarrow> nat \<Rightarrow> bool" where
  "scan_hit m r c \<longleftrightarrow>
     cell m r c = 0 \<and> - 1 \<in> set (slice_flatten m (r - 1) (r + 2) (c - 1) (c + 2))"

definition row_frontiers :: "ndarray \<Rightarrow> ndarray \<Rightarrow> nat \<Rightarrow> frontier list" where
  "row_frontiers m cm r =
     map (\<lambda>c. (r, c, cell cm r c)) (filter (scan_hit m r) [1..<ncols m - 1])"

definition row_raises :: "ndarray \<Rightarrow> ndarray \<Rightarrow> nat \<Rightarrow> bool" where
  "row_raises m cm r \<longleftrightarrow>
     (\<exists>c\<in>set [1..<ncols m - 1]. scan_hit m r c \<and> \<not> (r < nrows cm \<and> c < ncols cm))"

section \<open>The scan of \<open>find_frontiers\<close>\<close>

lemma find_frontiers_cols_eq:
  assumes "r < nrows m" "\<forall>c\<in>set cs. c < ncols m"
  shows "find_frontiers_cols rp m cm r cs acc =
    (if \<exists>c\<in>set cs. scan_hit m r c \<and> \<not> (r < nrows cm \<and> c < ncols cm) then Inl IndexError
     else Inr (acc @ map (\<lambda>c. (r, c, cell cm r c)) (filter (scan_hit m r) cs)))"
  using assms
proof (induction cs arbitrary: acc)
  case Nil
  then show ?case by simp
next
  case (Cons c cs)
  then have c: "c < ncols m" and cs: "\<forall>c\<in>set cs. c < ncols m" by simp_all
  have gm: "getitem m (r, c) = Inr (cell m r c)"
    using Cons.prems(1) c by (simp add: getitem_def cell_def)
  note IH = Cons.IH [OF Cons.prems(1) cs]
  show ?case
  proof (cases "scan_hit m r c")
    case False
    then have "cell m r c \<noteq> 0 \<or> - 1 \<notin> set (slice_flatten m (r - 1) (r + 2) (c - 1) (c + 2))"
      by (simp add: scan_hit_def)
    then have "find_frontiers_cols rp m cm r (c # cs) acc = find_frontiers_cols rp m cm r cs acc"
      using gm by (auto simp: Let_def)
    then show ?thesis using IH False by simp
  next
    case hit: True
    then have v: "cell m r c = 0"
      and n: "- 1 \<in> set (slice_flatten m (r - 1) (r + 2) (c - 1) (c + 2))"
      by (simp_all add: scan_hit_def)
    show ?thesis
    proof (cases "r < nrows cm \<and> c < ncols cm")
      case True
      then have "getitem cm (r, c) = Inr (cell cm r c)" by (simp add: getitem_def cell_def)
      then have "find_frontiers_cols rp m cm r (c # cs) acc =
                 find_frontiers_cols rp m cm r cs (acc @ [(r, c, cell cm r c)])"
        using gm v n by (simp add: Let_def)
      then show ?thesis using IH hit True by simp
    next
      case False
      then have "getitem cm (r, c) = Inl IndexError" by (auto simp add: getitem_def)
      then have "find_frontiers_cols rp m cm r (c # cs) acc = Inl IndexError"
        using gm v n by (simp add: Let_def)
      then show ?thesis using hit False by auto
    qed
  qed
qed

lemma find_frontiers_rows_eq:
  assumes "\<forall>r\<in>set rs. r < nrows m"
  shows "find_frontiers_rows rp m cm rs acc =
    (if \<exists>r\<in>set rs. row_raises m cm r then Inl IndexError
     else Inr (acc @ concat (map (row_frontiers m cm) rs)))"
  using assms
proof (induction rs arbitrary: acc)
  case Nil
  then show ?case by simp
next
  case (Cons r rs)
  then have r: "r < nrows m" and rs: "\<forall>r\<in>set rs. r < nrows m" by simp_all
  have cb: "\<forall>c\<in>set [1..<ncols m - 1]. c < ncols m" by auto
  have step: "find_frontiers_cols rp m cm r [1..<ncols m - 1] acc =
      (if row_raises m cm r then Inl IndexError else Inr (acc @ row_frontiers m cm r))"
    unfolding row_raises_def row_frontiers_def by (rule find_frontiers_cols_eq [OF r cb])
  show ?case
  proof (cases "row_raises m cm r")
    case True
    then show ?thesis using step by simp
  next
    case False
    then show ?thesis using step Cons.IH [OF rs] by simp
  qed
qed

lemma find_frontiers_eq:
  "find_frontiers rp m cm =
    (if \<exists>r\<in>set [1..<nrows m - 1]. row_raises m cm r then Inl IndexError
     else Inr (concat (map (row_frontiers m cm) [1..<nrows m - 1])))"
proof -
  have "\<forall>r\<in>set [1..<nrows m - 1]. r < nrows m" by auto
  from find_frontiers_rows_eq [OF this, of rp cm "[]"] show ?thesis
    by (simp add: find_frontiers_def)
qed

lemma set_slice_flatten:
  "x \<in> set (slice_flatten a r0 r1 c0 c1) \<longleftrightarrow>
     (\<exists>i j. x = cell a i j \<and> r0 \<le> i \<and> i < r1 \<and> i < nrows a \<and> c0 \<le> j \<and> j < c1 \<and> j < ncols a)"
proof -
  have s: "set (slice_flatten a r0 r1 c0 c1) =
        (\<Union>i\<in>{r0..<min r1 (nrows a)}. (\<lambda>j. cell a i j) ` {c0..<min c1 (ncols a)})"
    by (simp add: slice_flatten_def cell_def)
  show ?thesis
  proof
    assume "x \<in> set (slice_flatten a r0 r1 c0 c1)"
    then obtain i j where "i \<in> {r0..<min r1 (nrows a)}" "j \<in> {c0..<min c1 (ncols a)}"
      "x = cell a i j" unfolding s by blast
    then show "\<exists>i j. x = cell a i j \<and> r0 \<le> i \<and> i < r1 \<and> i < nrows a \<and>
                 c0 \<le> j \<and> j < c1 \<and> j < ncols a"
      by (intro exI [of _ i] exI [of _ j]) simp
  next
    assume "\<exists>i j. x = cell a i j \<and> r0 \<le> i \<and> i < r1 \<and> i < nrows a \<and>
                 c0 \<le> j \<and> j < c1 \<and> j < ncols a"
    then obtain i j where x: "x = cell a i j"
      and "i \<in> {r0..<min r1 (nrows a)}" "j \<in> {c0..<min c1 (ncols a)}" by auto
    then show "x \<in> set (slice_flatten a r0 r1 c0 c1)" unfolding s by blast
  qed
qed

lemma scan_hit_iff:
  assumes "1 \<le> r" "r + 2 \<le> nrows m" "1 \<le> c" "c + 2 \<le> ncols m"
  shows "scan_hit m r c \<longleftrightarrow>
     cell m r c = 0 \<and> (\<exists>p \<in> set (neighbors8 r c). cell m (fst p) (snd p) = - 1)"
proof (cases "cell m r c = 0")
  case False
  then show ?thesis by (simp add: scan_hit_def)
next
  case True
  have "(- 1 \<in> set (slice_flatten m (r - 1) (r + 2) (c - 1) (c + 2))) \<longleftrightarrow>
        (\<exists>i j. r - 1 \<le> i \<and> i \<le> r + 1 \<and> c - 1 \<le> j \<and> j \<le> c + 1 \<and> cell m i j = - 1)"
  proof -
    have "\<And>i j. (r - 1 \<le> i \<and> i < r + 2 \<and> i < nrows m \<and> c - 1 \<le> j \<and> j < c + 2 \<and> j < ncols m)
        \<longleftrightarrow> (r - 1 \<le> i \<and> i \<le> r + 1 \<and> c - 1 \<le> j \<and> j \<le> c + 1)"
      using assms by arith
    then show ?thesis unfolding set_slice_flatten by (metis (no_types, lifting))
  qed
  also have "\<dots> \<longleftrightarrow> (\<exists>p \<in> set (neighbors8 r c). cell m (fst p) (snd p) = - 1)"
  proof
    assume "\<exists>i j. r - 1 \<le> i \<and> i \<le> r + 1 \<and> c - 1 \<le> j \<and> j \<le> c + 1 \<and> cell m i j = - 1"
    then obtain i j where ij: "r - 1 \<le> i" "i \<le> r + 1" "c - 1 \<le> j" "j \<le> c + 1" "cell m i j = - 1"
      by blast
    have "(i, j) \<noteq> (r, c)" using ij(5) True by auto
    moreover have "i = r - 1 \<or> i = r \<or> i = r + 1" using ij(1,2) by arith
    moreover have "j = c - 1 \<or> j = c \<or> j = c + 1" using ij(3,4) by arith
    ultimately have "(i, j) \<in> set (neighbors8 r c)"
      by (auto simp: neighbors8_def)
    then show "\<exists>p \<in> set (neighbors8 r c). cell m (fst p) (snd p) = - 1"
      using ij(5) by force
  next
    assume "\<exists>p \<in> set (neighbors8 r c). cell m (fst p) (snd p) = - 1"
    then obtain p where p: "p \<in> set (neighbors8 r c)" "cell m (fst p) (snd p) = - 1"
      by blast
    from p(1) have "r - 1 \<le> fst p \<and> fst p \<le> r + 1 \<and> c - 1 \<le> snd p \<and> snd p \<le> c + 1"
      by (auto simp: neighbors8_def)
    with p(2) show "\<exists>i j. r - 1 \<le> i \<and> i \<le> r + 1 \<and> c - 1 \<le> j \<and> j \<le> c + 1 \<and> cell m i j = - 1"
      by blast
  qed
  finally show ?thesis using True by (simp add: scan_hit_def)
qed

lemma frontier_cell_iff:
  "frontier_cell m r c \<longleftrightarrow>
     r \<in> set [1..<nrows m - 1] \<and> c \<in> set [1..<ncols m - 1] \<and> scan_hit m r c"
proof (cases "1 \<le> r \<and> r + 2 \<le> nrows m \<and> 1 \<le> c \<and> c + 2 \<le> ncols m")
  case True
  then have "scan_hit m r c \<longleftrightarrow>
     cell m r c = 0 \<and> (\<exists>p \<in> set (neighbors8 r c). cell m (fst p) (snd p) = - 1)"
    by (intro scan_hit_iff) simp_all
  moreover have "r \<in> set [1..<nrows m - 1] \<and> c \<in> set [1..<ncols m - 1]"
    using True by auto
  moreover have "1 \<le> int r \<and> int r \<le> int (nrows m) - 2 \<and> 1 \<le> int c \<and> int c \<le> int (ncols m) - 2"
    using True by auto
  ultimately show ?thesis by (simp add: frontier_cell_def)
next
  case False
  then have "\<not> (r \<in> set [1..<nrows m - 1] \<and> c \<in> set [1..<ncols m - 1])" by auto
  moreover have "\<not> (1 \<le> int r \<and> int r \<le> int (nrows m) - 2 \<and> 1 \<le> int c \<and> int c \<le> int (ncols m) - 2)"
    using False by auto
  then have "\<not> frontier_cell m r c" unfolding frontier_cell_def by blast
  ultimately show ?thesis by blast
qed

lemma scan_raises_iff:
  "(\<exists>r\<in>set [1..<nrows m - 1]. row_raises m cm r) \<longleftrightarrow>
   (\<exists>r c. frontier_cell m r c \<and> \<not> (r < nrows cm \<and> c < ncols cm))"
  unfolding row_raises_def frontier_cell_iff by blast

lemma set_row_frontiers:
  "(r, c, k) \<in> set (concat (map (row_frontiers m cm) [1..<nrows m - 1])) \<longleftrightarrow>
     frontier_cell m r c \<and> k = cell cm r c"
  unfolding frontier_cell_iff row_frontiers_def by auto

lemma sorted_row_frontiers: "sorted_wrt row_major_less (row_frontiers m cm r)"
proof -
  have "sorted_wrt (<) (filter (scan_hit m r) [1..<ncols m - 1])"
    by (rule sorted_wrt_filter) (rule sorted_wrt_upt)
  then show ?thesis
    by (simp add: row_frontiers_def sorted_wrt_map row_major_less_def)
qed

lemma fst_row_frontiers: "f \<in> set (row_frontiers m cm r) \<Longrightarrow> fst f = r"
  by (auto simp: row_frontiers_def)

lemma sorted_concat_row_frontiers:
  "sorted_wrt (<) rs \<Longrightarrow> sorted_wrt row_major_less (concat (map (row_frontiers m cm) rs))"
proof (induction rs)
  case Nil
  then show ?case by simp
next
  case (Cons r rs)
  have "row_major_less f g"
    if "f \<in> set (row_frontiers m cm r)" "g \<in> set (concat (map (row_frontiers m cm) rs))" for f g
  proof -
    from that(2) obtain r' where "r' \<in> set rs" "g \<in> set (row_frontiers m cm r')" by auto
    then have "r < fst g" using Cons.prems fst_row_frontiers by fastforce
    then show ?thesis using that(1) fst_row_frontiers by (simp add: row_major_less_def)
  qed
  then show ?case using Cons sorted_row_frontiers by (simp add: sorted_wrt_append)
qed

lemma sorted_wrt_irrefl_distinct:
  "sorted_wrt R xs \<Longrightarrow> (\<And>x. \<not> R x x) \<Longrightarrow> distinct xs"
  by (induction xs) auto

lemma distinct_frontier_keys:
  "sorted_wrt row_major_less fs \<Longrightarrow> distinct (map (\<lambda>f. (fst f, fst (snd f))) fs)"
proof -
  assume "sorted_wrt row_major_less fs"
  then have "sorted_wrt (\<lambda>p q. fst p < fst q \<or> (fst p = fst q \<and> snd p < snd q))
               (map (\<lambda>f. (fst f, fst (snd f))) fs)"
    by (simp add: sorted_wrt_map row_major_less_def [abs_def])
  then show ?thesis by (rule sorted_wrt_irrefl_distinct) simp
qed

lemma count_frontier_keys:
  assumes "sorted_wrt row_major_less fs"
  shows "length (filter (\<lambda>f. fst f = r \<and> fst (snd f) = c) fs) =
         (if \<exists>k. (r, c, k) \<in> set fs then 1 else 0)"
proof -
  let ?key = "\<lambda>f::frontier. (fst f, fst (snd f))"
  have "length (filter (\<lambda>f. fst f = r \<and> fst (snd f) = c) fs) =
        length (filter (\<lambda>p. p = (r, c)) (map ?key fs))"
    by (simp add: filter_map comp_def prod_eq_iff)
  also have "\<dots> = card ({p. p = (r, c)} \<inter> set (map ?key fs))"
    using distinct_frontier_keys [OF assms] by (rule distinct_length_filter)
  also have "{p. p = (r, c)} \<inter> set (map ?key fs) = (if \<exists>k. (r, c, k) \<in> set fs then {(r, c)} else {})"
    by force
  finally show ?thesis by simp
qed


lemmas eval_defs = find_frontiers_def upt_rec getitem_def slice_flatten_def Let_def reshape_def
  explore_def choose_frontier_def less_min_distance_def navigate_to_def getattr_shutdown_def
  map_callback_def costmap_callback_def ExplorerNode_init_def with_grids_def

lemma scenario_detect:
  "find_frontiers rp scenario_map scenario_costmap = Inr scenario_frontiers"
  by (simp add: find_frontiers_def scenario_map_def scenario_costmap_def scenario_frontiers_def
      upt_rec getitem_def slice_flatten_def Let_def)

lemma scenario_reshape:
  "reshape (cells scenario_map) (5, 5) = Inr scenario_map"
  "reshape (cells scenario_costmap) (5, 5) = Inr scenario_costmap"
  by (simp_all add: reshape_def scenario_map_def scenario_costmap_def)

section \<open>Properties of frontier detection\<close>

text \<open>Claim C3. For a map array and a costmap array, \<open>find_frontiers\<close> returns a list
  whenever the costmap is at least as large as the map in both directions (in particular
  when the shapes agree). Whenever it returns a list, a tuple \<open>(r, c, k)\<close> is in it if and
  only if \<open>(r, c)\<close> is an interior cell of the map (row in \<open>[1, height - 2]\<close>, column in
  \<open>[1, width - 2]\<close>) whose value is exactly 0 and one of whose eight neighbours is exactly
  \<open>-1\<close>, and \<open>k\<close> is the costmap's value at \<open>(r, c)\<close>; and each such cell occurs exactly
  once in the list, every other cell not at all.\<close>

theorem find_frontiers_frontier_condition:
  assumes "reshape map_cells (h, w) = Inr m" and "reshape costmap_cells (ch, cw) = Inr cm"
  shows "(h \<le> ch \<and> w \<le> cw \<longrightarrow> (\<exists>fs. find_frontiers rp m cm = Inr fs)) \<and>
         (\<forall>fs. find_frontiers rp m cm = Inr fs \<longrightarrow>
            (\<forall>r c k. (r, c, k) \<in> set fs \<longleftrightarrow> frontier_cell m r c \<and> getitem cm (r, c) = Inr k) \<and>
            (\<forall>r c. length (filter (\<lambda>f. fst f = r \<and> fst (snd f) = c) fs) =
                     (if frontier_cell m r c then 1 else 0)))"
proof (intro conjI impI allI)
  assume le: "h \<le> ch \<and> w \<le> cw"
  have shape: "nrows m = h" "ncols m = w" "nrows cm = ch" "ncols cm = cw"
    using assms by (auto simp: reshape_def split: if_splits)
  have "\<not> (\<exists>r c. frontier_cell m r c \<and> \<not> (r < nrows cm \<and> c < ncols cm))"
    using le shape by (auto simp: frontier_cell_def)
  then show "\<exists>fs. find_frontiers rp m cm = Inr fs"
    unfolding find_frontiers_eq scan_raises_iff by simp
next
  fix fs r c k
  assume ok: "find_frontiers rp m cm = Inr fs"
  then have inb: "\<And>r c. frontier_cell m r c \<Longrightarrow> r < nrows cm \<and> c < ncols cm"
    and fs: "fs = concat (map (row_frontiers m cm) [1..<nrows m - 1])"
    unfolding find_frontiers_eq scan_raises_iff by (auto split: if_splits)
  have mem: "(r, c, k) \<in> set fs \<longleftrightarrow> frontier_cell m r c \<and> k = cell cm r c" for r c k
    unfolding fs by (rule set_row_frontiers)
  show "(r, c, k) \<in> set fs \<longleftrightarrow> frontier_cell m r c \<and> getitem cm (r, c) = Inr k"
    using inb [of r c] unfolding mem by (auto simp: getitem_def cell_def)
  have "sorted_wrt row_major_less fs"
    unfolding fs by (rule sorted_concat_row_frontiers) (rule sorted_wrt_upt)
  then show "length (filter (\<lambda>f. fst f = r \<and> fst (snd f) = c) fs) =
             (if frontier_cell m r c then 1 else 0)"
    by (simp add: count_frontier_keys mem)
qed

theorem find_frontiers_frontier_condition_witness:
  "find_frontiers (0, 0) scenario_map scenario_costmap = Inr scenario_frontiers \<and>
   frontier_cell scenario_map 1 1 \<and> \<not> frontier_cell scenario_map 2 2 \<and>
   \<not> frontier_cell scenario_map 0 1 \<and>
   length (filter (\<lambda>f. fst f = 1 \<and> fst (snd f) = 1) scenario_frontiers) = 1"
proof -
  note t = find_frontiers_frontier_condition [OF scenario_reshape, of "(0, 0)"]
  have d: "find_frontiers (0, 0) scenario_map scenario_costmap = Inr scenario_frontiers"
    by (rule scenario_detect)
  from t d have iff: "\<And>r c k. (r, c, k) \<in> set scenario_frontiers \<longleftrightarrow>
      frontier_cell scenario_map r c \<and> getitem scenario_costmap (r, c) = Inr k"
    by blast
  have g: "getitem scenario_costmap (2, 2) = Inr 0" "getitem scenario_costmap (0, 1) = Inr 0"
    by (simp_all add: getitem_def scenario_costmap_def)
  have "frontier_cell scenario_map 1 1"
    using iff [of 1 1 0] by (simp add: scenario_frontiers_def)
  moreover have "\<not> frontier_cell scenario_map 2 2"
    using iff [of 2 2 0] g by (simp add: scenario_frontiers_def)
  moreover have "\<not> frontier_cell scenario_map 0 1"
    using iff [of 0 1 0] g by (simp add: scenario_frontiers_def)
  moreover have "length (filter (\<lambda>f. fst f = 1 \<and> fst (snd f) = 1) scenario_frontiers) = 1"
    by (simp add: scenario_frontiers_def)
  ultimately show ?thesis using d by simp
qed

text \<open>Claim C6. No frontier returned by \<open>find_frontiers\<close> lies on the border of the map:
  its row is neither 0 nor \<open>height - 1\<close> and its column neither 0 nor \<open>width - 1\<close>.\<close>

theorem find_frontiers_border_exclusion:
  assumes "find_frontiers rp m cm = Inr fs" and "(r, c, k) \<in> set fs"
  shows "r \<notin> {0, nrows m - 1} \<and> c \<notin> {0, ncols m - 1}"
proof -
  from assms(1) have fs: "fs = concat (map (row_frontiers m cm) [1..<nrows m - 1])"
    unfolding find_frontiers_eq by (auto split: if_splits)
  from assms(2) have "frontier_cell m r c"
    unfolding fs set_row_frontiers by simp
  then show ?thesis by (auto simp: frontier_cell_def)
qed

theorem find_frontiers_border_exclusion_witness:
  "find_frontiers (0, 0) scenario_map scenario_costmap = Inr scenario_frontiers \<and>
   (3, 3, 0) \<in> set scenario_frontiers \<and>
   (3::nat) \<notin> {0, nrows scenario_map - 1} \<and> (3::nat) \<notin> {0, ncols scenario_map - 1}"
proof -
  have d: "find_frontiers (0, 0) scenario_map scenario_costmap = Inr scenario_frontiers"
    by (rule scenario_detect)
  have i: "(3, 3, 0) \<in> set scenario_frontiers" by (simp add: scenario_frontiers_def)
  from find_frontiers_border_exclusion [OF d i] d i show ?thesis by simp
qed

text \<open>Claim C8. \<open>find_frontiers\<close> is a function of the map array, the costmap array and
  the robot position: equal inputs give equal outputs, element for element. The output
  does not even depend on the robot position, and the returned list is in row-major scan
  order, strictly increasing by row and then by column.\<close>

theorem find_frontiers_deterministic_row_major:
  "(rp1 = rp2 \<and> m1 = m2 \<and> cm1 = cm2 \<longrightarrow>
      find_frontiers rp1 m1 cm1 = find_frontiers rp2 m2 cm2) \<and>
   find_frontiers rp1 m1 cm1 = find_frontiers rp2 m1 cm1 \<and>
   (\<forall>fs. find_frontiers rp1 m1 cm1 = Inr fs \<longrightarrow> sorted_wrt row_major_less fs)"
proof (intro conjI impI allI)
  show "find_frontiers rp1 m1 cm1 = find_frontiers rp2 m1 cm1"
    by (simp add: find_frontiers_eq)
  fix fs assume "find_frontiers rp1 m1 cm1 = Inr fs"
  then have fs: "fs = concat (map (row_frontiers m1 cm1) [1..<nrows m1 - 1])"
    unfolding find_frontiers_eq by (auto split: if_splits)
  show "sorted_wrt row_major_less fs"
    unfolding fs by (rule sorted_concat_row_frontiers) (rule sorted_wrt_upt)
qed simp

theorem find_frontiers_deterministic_row_major_witness:
  "find_frontiers (0, 0) scenario_map scenario_costmap = Inr scenario_frontiers \<and>
   find_frontiers (7, 9) scenario_map scenario_costmap = Inr scenario_frontiers \<and>
   sorted_wrt row_major_less scenario_frontiers"
  using find_frontiers_deterministic_row_major
          [of "(0, 0)" "(7, 9)" scenario_map scenario_map scenario_costmap scenario_costmap]
        scenario_detect [of "(0, 0)"]
  by simp

section \<open>Selection, ticks and sessions\<close>

lemma choose_loop_chosen:
  "snd (choose_loop visited rp fs md ch) = Some f \<Longrightarrow>
     (f \<in> set fs \<and> f \<notin> visited) \<or> ch = Some f"
proof (induction fs arbitrary: md ch)
  case Nil
  then show ?case by simp
next
  case (Cons g fs)
  show ?case
  proof (cases "g \<in> visited")
    case True
    with Cons.prems have "snd (choose_loop visited rp fs md ch) = Some f" by simp
    from Cons.IH [OF this] show ?thesis by auto
  next
    case False
    let ?d = "distance_to rp (fst g) (fst (snd g))"
    from Cons.prems False
    have "snd (choose_loop visited rp fs (Some ?d) (Some g)) = Some f \<or>
          snd (choose_loop visited rp fs md ch) = Some f"
      by (simp add: Let_def split: if_splits)
    then show ?thesis
    proof
      assume "snd (choose_loop visited rp fs (Some ?d) (Some g)) = Some f"
      from Cons.IH [OF this] False show ?thesis by auto
    next
      assume "snd (choose_loop visited rp fs md ch) = Some f"
      from Cons.IH [OF this] show ?thesis by auto
    qed
  qed
qed

lemma choose_frontier_Some:
  assumes "choose_frontier s fs = (Some f, s')"
  shows "f \<in> set fs \<and> f \<notin> visited_frontiers s \<and>
         s' = s\<lparr>visited_frontiers := insert f (visited_frontiers s)\<rparr>"
proof -
  from assms have c: "snd (choose_loop (visited_frontiers s) (robot_position s) fs None None) = Some f"
    and s': "s' = s\<lparr>visited_frontiers := insert f (visited_frontiers s)\<rparr>"
    by (auto simp: choose_frontier_def split: option.splits)
  from choose_loop_chosen [OF c] s' show ?thesis by simp
qed

lemma choose_frontier_None: "choose_frontier s fs = (None, s') \<Longrightarrow> s' = s"
  by (auto simp: choose_frontier_def split: option.splits)

lemma choose_frontier_frame:
  assumes "choose_frontier s fs = (r, s')"
  shows "robot_position s' = robot_position s \<and> map_data s' = map_data s \<and>
         costmap_data s' = costmap_data s \<and> goals_sent s' = goals_sent s \<and>
         shutdown_calls s' = shutdown_calls s \<and> node_destroyed s' = node_destroyed s \<and>
         visited_frontiers s \<subseteq> visited_frontiers s'"
  using assms by (auto simp: choose_frontier_def split: option.splits)

lemma explore_frame:
  assumes "explore s = Inr s'"
  shows "robot_position s' = robot_position s \<and> visited_frontiers s \<subseteq> visited_frontiers s'"
proof -
  have sh: "getattr_shutdown ''shutdown_robot'' = Inl AttributeError"
    by (simp add: getattr_shutdown_def)
  show ?thesis
    using assms unfolding explore_def sh
    by (auto simp: Let_def navigate_to_def
             split: option.splits sum.splits if_splits prod.splits
             dest!: choose_frontier_frame)
qed

lemma step_frame:
  assumes "step e s = Inr s'"
  shows "robot_position s' = robot_position s \<and> visited_frontiers s \<subseteq> visited_frontiers s'"
proof (cases e)
  case TimerTick
  with assms show ?thesis using explore_frame by simp
qed (use assms in \<open>auto simp: map_callback_def costmap_callback_def goal_response_callback_def
       navigation_complete_callback_def\<close>)

lemma run_frame:
  "run es s = Inr s' \<Longrightarrow>
     robot_position s' = robot_position s \<and> visited_frontiers s \<subseteq> visited_frontiers s'"
proof (induction es arbitrary: s)
  case Nil
  then show ?case by simp
next
  case (Cons e es)
  then obtain s1 where s1: "step e s = Inr s1" and r: "run es s1 = Inr s'"
    by (auto split: sum.splits)
  from step_frame [OF s1] Cons.IH [OF r] show ?case by auto
qed


section \<open>Properties of frontier selection\<close>

lemma choose_loop_keeps_choice:
  "snd (choose_loop visited rp fs md (Some c)) \<noteq> None"
  by (induction fs arbitrary: md c) (simp_all add: Let_def)

lemma choose_loop_None_iff:
  "snd (choose_loop visited rp fs None None) = None \<longleftrightarrow> set fs \<subseteq> visited"
proof (induction fs)
  case Nil
  then show ?case by simp
next
  case (Cons f fs)
  show ?case
  proof (cases "f \<in> visited")
    case True
    with Cons.IH show ?thesis by simp
  next
    case False
    then have "snd (choose_loop visited rp (f # fs) None None) =
               snd (choose_loop visited rp fs
                      (Some (distance_to rp (fst f) (fst (snd f)))) (Some f))"
      by (simp add: Let_def less_min_distance_def)
    with False choose_loop_keeps_choice show ?thesis by simp
  qed
qed

lemma choose_frontier_None_iff:
  "fst (choose_frontier t fs) = None \<longleftrightarrow> set fs \<subseteq> visited_frontiers t"
proof -
  have "fst (choose_frontier t fs) =
        snd (choose_loop (visited_frontiers t) (robot_position t) fs None None)"
    by (simp add: choose_frontier_def split: option.splits)
  then show ?thesis by (simp add: choose_loop_None_iff)
qed

lemma choose_frontier_result:
  assumes "fst (choose_frontier t fs) = Some f"
  shows "f \<in> set fs \<and> f \<notin> visited_frontiers t \<and>
         snd (choose_frontier t fs) = t\<lparr>visited_frontiers := insert f (visited_frontiers t)\<rparr>"
proof -
  obtain t' where "choose_frontier t fs = (Some f, t')"
    using assms by (cases "choose_frontier t fs") simp
  from choose_frontier_Some [OF this] this show ?thesis by simp
qed

lemma choose_frontier_single:
  assumes "f \<notin> visited_frontiers t"
  shows "fst (choose_frontier t [f]) = Some f"
proof -
  from assms have "fst (choose_frontier t [f]) \<noteq> None"
    unfolding choose_frontier_None_iff by simp
  then obtain g where g: "fst (choose_frontier t [f]) = Some g" by blast
  from choose_frontier_result [OF g] have "g = f" by simp
  with g show ?thesis by simp
qed

lemma choose_all_visited:
  "choose_all s fss = (cs, s') \<Longrightarrow>
     visited_frontiers s' = visited_frontiers s \<union> {f. Some f \<in> set cs} \<and>
     (\<forall>f. Some f \<in> set cs \<longrightarrow> f \<notin> visited_frontiers s) \<and>
     distinct (filter (\<lambda>c. c \<noteq> None) cs)"
proof (induction fss arbitrary: s cs s')
  case Nil
  then show ?case by simp
next
  case (Cons fs fss)
  obtain c s1 where c: "choose_frontier s fs = (c, s1)" by (cases "choose_frontier s fs")
  obtain cs1 s2 where r: "choose_all s1 fss = (cs1, s2)" by (cases "choose_all s1 fss")
  from Cons.prems c r have cs: "cs = c # cs1" and s': "s' = s2" by simp_all
  note IH = Cons.IH [OF r]
  show ?case
  proof (cases c)
    case None
    with c have "s1 = s" by (simp add: choose_frontier_None)
    with IH None show ?thesis unfolding cs s' by auto
  next
    case (Some f)
    from choose_frontier_Some [OF c [unfolded Some]]
    have f: "f \<notin> visited_frontiers s"
      and v1: "visited_frontiers s1 = insert f (visited_frontiers s)" by simp_all
    from IH v1 have "Some f \<notin> set cs1" by blast
    with IH v1 f Some show ?thesis unfolding cs s' by auto
  qed
qed

text \<open>Claim C4, as amended. The identity under which a frontier is recorded as visited is
  the whole tuple \<open>(row, col, cost)\<close>. Over any sequence of calls of \<open>choose_frontier\<close> the
  visited set only grows and ends as the starting set plus the tuples returned; no returned
  tuple was in the set before, no tuple is returned twice, and after \<open>k\<close> successful
  selections the set has exactly \<open>k\<close> more entries. No event handled by the node removes
  an entry. A call returns nothing exactly when every tuple offered is already in the
  visited set; what it returns is an offered tuple that was not in the set, and it is added
  to the set. So a tuple that is not in the set is selected when offered alone, also when
  the same \<open>(row, col)\<close> is in the set with another cost.\<close>

theorem visited_identity_is_whole_tuple:
  assumes "choose_all s frontier_lists = (chosen, s')"
  shows "visited_frontiers s \<subseteq> visited_frontiers s' \<and>
         visited_frontiers s' = visited_frontiers s \<union> {f. Some f \<in> set chosen} \<and>
         (\<forall>f. Some f \<in> set chosen \<longrightarrow> f \<notin> visited_frontiers s) \<and>
         distinct (filter (\<lambda>c. c \<noteq> None) chosen) \<and>
         (finite (visited_frontiers s) \<longrightarrow>
            card (visited_frontiers s') =
              card (visited_frontiers s) + length (filter (\<lambda>c. c \<noteq> None) chosen)) \<and>
         (\<forall>e t t'. step e t = Inr t' \<longrightarrow> visited_frontiers t \<subseteq> visited_frontiers t') \<and>
         (\<forall>t fs. fst (choose_frontier t fs) = None \<longleftrightarrow> set fs \<subseteq> visited_frontiers t) \<and>
         (\<forall>t fs f. fst (choose_frontier t fs) = Some f \<longrightarrow>
            f \<in> set fs \<and> f \<notin> visited_frontiers t \<and>
            snd (choose_frontier t fs) = t\<lparr>visited_frontiers := insert f (visited_frontiers t)\<rparr>) \<and>
         (\<forall>t f. f \<notin> visited_frontiers t \<longrightarrow> fst (choose_frontier t [f]) = Some f) \<and>
         (\<forall>t r c k k'. (r, c, k) \<in> visited_frontiers t \<and> (r, c, k') \<notin> visited_frontiers t \<longrightarrow>
            fst (choose_frontier t [(r, c, k')]) = Some (r, c, k'))"
proof -
  note v = choose_all_visited [OF assms]
  let ?new = "{f. Some f \<in> set chosen}"
  have new: "?new = the ` set (filter (\<lambda>c. c \<noteq> None) chosen)"
    by (auto simp: image_iff) force
  have inj: "inj_on the (set (filter (\<lambda>c. c \<noteq> None) chosen))"
    by (auto simp: inj_on_def)
  have "card (the ` set (filter (\<lambda>c. c \<noteq> None) chosen)) =
        card (set (filter (\<lambda>c. c \<noteq> None) chosen))"
    by (rule card_image [OF inj])
  also have "\<dots> = length (filter (\<lambda>c. c \<noteq> None) chosen)"
    by (rule distinct_card) (use v in blast)
  finally have cardnew: "card ?new = length (filter (\<lambda>c. c \<noteq> None) chosen)"
    unfolding new .
  have fin: "finite ?new" unfolding new by simp
  have disj: "visited_frontiers s \<inter> ?new = {}" using v by auto
  have "card (visited_frontiers s') =
          card (visited_frontiers s) + length (filter (\<lambda>c. c \<noteq> None) chosen)"
    if "finite (visited_frontiers s)"
    using v that fin disj cardnew by (simp add: card_Un_disjoint)
  moreover have "\<forall>e t t'. step e t = Inr t' \<longrightarrow> visited_frontiers t \<subseteq> visited_frontiers t'"
    using step_frame by blast
  ultimately have seq: "visited_frontiers s \<subseteq> visited_frontiers s' \<and>
         visited_frontiers s' = visited_frontiers s \<union> {f. Some f \<in> set chosen} \<and>
         (\<forall>f. Some f \<in> set chosen \<longrightarrow> f \<notin> visited_frontiers s) \<and>
         distinct (filter (\<lambda>c. c \<noteq> None) chosen) \<and>
         (finite (visited_frontiers s) \<longrightarrow>
            card (visited_frontiers s') =
              card (visited_frontiers s) + length (filter (\<lambda>c. c \<noteq> None) chosen)) \<and>
         (\<forall>e t t'. step e t = Inr t' \<longrightarrow> visited_frontiers t \<subseteq> visited_frontiers t')"
    using v by auto
  have none: "\<forall>t fs. fst (choose_frontier t fs) = None \<longleftrightarrow> set fs \<subseteq> visited_frontiers t"
    by (simp add: choose_frontier_None_iff)
  have some: "\<forall>t fs f. fst (choose_frontier t fs) = Some f \<longrightarrow>
            f \<in> set fs \<and> f \<notin> visited_frontiers t \<and>
            snd (choose_frontier t fs) = t\<lparr>visited_frontiers := insert f (visited_frontiers t)\<rparr>"
    using choose_frontier_result by blast
  have single: "\<forall>t f. f \<notin> visited_frontiers t \<longrightarrow> fst (choose_frontier t [f]) = Some f"
    using choose_frontier_single by blast
  then have again: "\<forall>t r c k k'. (r, c, k) \<in> visited_frontiers t \<and> (r, c, k') \<notin> visited_frontiers t \<longrightarrow>
            fst (choose_frontier t [(r, c, k')]) = Some (r, c, k')"
    by blast
  from seq none some single again show ?thesis by blast
qed

theorem visited_identity_is_whole_tuple_witness:
  "choose_all ExplorerNode_init [[(1, 1, 0), (1, 2, 0)], [(1, 1, 0), (1, 2, 0)], [(1, 1, 0), (1, 2, 0)]] =
     ([Some (1, 2, 0), Some (1, 1, 0), None],
      ExplorerNode_init\<lparr>visited_frontiers := {(1, 1, 0), (1, 2, 0)}\<rparr>) \<and>
   finite (visited_frontiers ExplorerNode_init) \<and>
   card (visited_frontiers (ExplorerNode_init\<lparr>visited_frontiers := {(1, 1, 0), (1, 2, 0)}\<rparr>)) =
     card (visited_frontiers ExplorerNode_init) +
       length (filter (\<lambda>c. c \<noteq> None) [Some (1, 2, 0), Some (1, 1, 0), None :: frontier option]) \<and>
   card (visited_frontiers ExplorerNode_init) +
       length (filter (\<lambda>c. c \<noteq> None) [Some (1, 2, 0), Some (1, 1, 0), None :: frontier option]) = 2 \<and>
   (1, 1, 0) \<in> visited_frontiers (ExplorerNode_init\<lparr>visited_frontiers := {(1, 1, 0), (1, 2, 0)}\<rparr>) \<and>
   (1, 1, 5) \<notin> visited_frontiers (ExplorerNode_init\<lparr>visited_frontiers := {(1, 1, 0), (1, 2, 0)}\<rparr>) \<and>
   fst (choose_frontier (ExplorerNode_init\<lparr>visited_frontiers := {(1, 1, 0), (1, 2, 0)}\<rparr>)
          [(1, 1, 5)]) = Some (1, 1, 5)"
proof -
  let ?t = "ExplorerNode_init\<lparr>visited_frontiers := {(1, 1, 0), (1, 2, 0)}\<rparr>"
  have run: "choose_all ExplorerNode_init
       [[(1, 1, 0), (1, 2, 0)], [(1, 1, 0), (1, 2, 0)], [(1, 1, 0), (1, 2, 0)]] =
     ([Some (1, 2, 0), Some (1, 1, 0), None], ?t)"
    by (simp add: eval_defs)
  have fin: "finite (visited_frontiers ExplorerNode_init)"
    by (simp add: ExplorerNode_init_def)
  have two: "card (visited_frontiers ExplorerNode_init) +
       length (filter (\<lambda>c. c \<noteq> None) [Some (1, 2, 0), Some (1, 1, 0), None :: frontier option]) = 2"
    by (simp add: ExplorerNode_init_def)
  have old: "(1, 1, 0) \<in> visited_frontiers ?t" by simp
  have fresh: "(1, 1, 5) \<notin> visited_frontiers ?t" by simp
  note t = visited_identity_is_whole_tuple [OF run]
  from t fin
  have c: "card (visited_frontiers ?t) =
        card (visited_frontiers ExplorerNode_init) +
          length (filter (\<lambda>c. c \<noteq> None) [Some (1, 2, 0), Some (1, 1, 0), None :: frontier option])"
    by blast
  from t old fresh have again: "fst (choose_frontier ?t [(1, 1, 5)]) = Some (1, 1, 5)"
    by blast
  from run fin two c old fresh again show ?thesis by blast
qed

text \<open>Claim C4 as stated fails: once \<open>(1, 1, 0)\<close> has been selected, the same cell with
  cost 5 is selected again.\<close>

theorem visited_identity_row_col_counterexample:
  "fst (choose_all ExplorerNode_init [[(1, 1, 0)], [(1, 1, 5)]]) = [Some (1, 1, 0), Some (1, 1, 5)]"
  by (simp add: eval_defs)


lemma explore_ready:
  assumes "map_data s = Some md" and "costmap_data s = Some cd"
    and "reshape (data md) (info_height md, info_width md) = Inr ma"
    and "reshape (data cd) (info_height cd, info_width cd) = Inr ca"
  shows "explore s =
     (case find_frontiers (robot_position s) ma ca of
        Inl e \<Rightarrow> Inl e
      | Inr frontiers \<Rightarrow>
          if frontiers = [] then Inl AttributeError
          else (case choose_frontier s frontiers of
                  (None, s') \<Rightarrow> Inr s'
                | (Some chosen, s') \<Rightarrow>
                    Inr (navigate_to s'
                          (real (fst (snd chosen)) * info_resolution md + info_origin_x md)
                          (real (fst chosen) * info_resolution md + info_origin_y md))))"
  using assms
  by (simp add: explore_def getattr_shutdown_def Let_def
           split: sum.splits option.splits prod.splits)

section \<open>Properties of the tick\<close>

text \<open>Claim C9. A tick at which the map or the costmap has not been received returns with
  the node's state unchanged: no goal is sent, the visited set is the same, and nothing
  is shut down.\<close>

theorem explore_not_ready_is_noop:
  assumes "map_data s = None \<or> costmap_data s = None"
  shows "explore s = Inr s \<and> step TimerTick s = Inr s"
  using assms by (auto simp: explore_def split: option.splits)

theorem explore_not_ready_is_noop_witness:
  "map_data ExplorerNode_init = None \<and>
   explore ExplorerNode_init = Inr ExplorerNode_init \<and>
   costmap_data (map_callback ExplorerNode_init complete_grid) = None \<and>
   explore (map_callback ExplorerNode_init complete_grid) =
     Inr (map_callback ExplorerNode_init complete_grid)"
proof -
  have a: "map_data ExplorerNode_init = None" by (simp add: ExplorerNode_init_def)
  have b: "costmap_data (map_callback ExplorerNode_init complete_grid) = None"
    by (simp add: ExplorerNode_init_def map_callback_def)
  from a have a': "map_data ExplorerNode_init = None \<or> costmap_data ExplorerNode_init = None" ..
  from b have b': "map_data (map_callback ExplorerNode_init complete_grid) = None \<or>
                   costmap_data (map_callback ExplorerNode_init complete_grid) = None" ..
  from explore_not_ready_is_noop [OF a'] explore_not_ready_is_noop [OF b'] a b
  show ?thesis by blast
qed

text \<open>Claim C7. When a tick chooses the frontier at \<open>(row, col)\<close>, the goal it sends is
  \<open>(col * resolution + origin.x, row * resolution + origin.y)\<close>; with resolution 0.05 and
  origin \<open>(-1, -1)\<close> that is \<open>(col * 0.05 - 1, row * 0.05 - 1)\<close>. The arithmetic is over the
  reals.\<close>

theorem explore_goal_world_coordinates:
  assumes "map_data s = Some md" and "costmap_data s = Some cd"
    and "reshape (data md) (info_height md, info_width md) = Inr map_array"
    and "reshape (data cd) (info_height cd, info_width cd) = Inr costmap_array"
    and "find_frontiers (robot_position s) map_array costmap_array = Inr frontiers"
    and "choose_frontier s frontiers = (Some (row, col, cost), s1)"
  shows "explore s = Inr (s1\<lparr>goals_sent := goals_sent s @
            [(real col * info_resolution md + info_origin_x md,
              real row * info_resolution md + info_origin_y md)]\<rparr>) \<and>
         (info_resolution md = 0.05 \<and> info_origin_x md = - 1 \<and> info_origin_y md = - 1 \<longrightarrow>
            explore s = Inr (s1\<lparr>goals_sent := goals_sent s @
              [(real col * 0.05 - 1, real row * 0.05 - 1)]\<rparr>))"
proof -
  from choose_frontier_Some [OF assms(6)] have ne: "frontiers \<noteq> []" by auto
  from choose_frontier_frame [OF assms(6)] have g: "goals_sent s1 = goals_sent s" by simp
  have "explore s = Inr (navigate_to s1 (real col * info_resolution md + info_origin_x md)
                           (real row * info_resolution md + info_origin_y md))"
    unfolding explore_ready [OF assms(1-4)] using assms(5,6) ne by simp
  then have e: "explore s = Inr (s1\<lparr>goals_sent := goals_sent s @
            [(real col * info_resolution md + info_origin_x md,
              real row * info_resolution md + info_origin_y md)]\<rparr>)"
    by (simp add: navigate_to_def g)
  then show ?thesis by auto
qed


lemma scenario_grid_reshape:
  "reshape (data (scenario_grid (cells scenario_map)))
     (info_height (scenario_grid (cells scenario_map)), info_width (scenario_grid (cells scenario_map)))
     = Inr scenario_map"
  "reshape (data (scenario_grid (cells scenario_costmap)))
     (info_height (scenario_grid (cells scenario_costmap)),
      info_width (scenario_grid (cells scenario_costmap)))
     = Inr scenario_costmap"
  by (simp_all add: reshape_def scenario_grid_def scenario_map_def scenario_costmap_def)

lemma scenario_choose:
  "choose_frontier (with_grids (scenario_grid (cells scenario_map)) (scenario_grid (cells scenario_costmap)))
      scenario_frontiers =
   (Some (3, 3, 0),
    (with_grids (scenario_grid (cells scenario_map)) (scenario_grid (cells scenario_costmap)))
      \<lparr>visited_frontiers := {(3, 3, 0)}\<rparr>)"
  by (simp add: eval_defs scenario_frontiers_def)

theorem explore_goal_world_coordinates_witness:
  "explore (with_grids (scenario_grid (cells scenario_map)) (scenario_grid (cells scenario_costmap))) =
     Inr ((with_grids (scenario_grid (cells scenario_map)) (scenario_grid (cells scenario_costmap)))
           \<lparr>visited_frontiers := {(3, 3, 0)},
            goals_sent := [(real 3 * 0.05 - 1, real 3 * 0.05 - 1)]\<rparr>)"
proof -
  let ?s = "with_grids (scenario_grid (cells scenario_map)) (scenario_grid (cells scenario_costmap))"
  have m: "map_data ?s = Some (scenario_grid (cells scenario_map))"
    and c: "costmap_data ?s = Some (scenario_grid (cells scenario_costmap))"
    and rp: "robot_position ?s = (0, 0)" and g: "goals_sent ?s = []"
    by (simp_all add: with_grids_def map_callback_def costmap_callback_def ExplorerNode_init_def)
  have d: "find_frontiers (robot_position ?s) scenario_map scenario_costmap = Inr scenario_frontiers"
    by (rule scenario_detect)
  have r: "info_resolution (scenario_grid (cells scenario_map)) = 0.05 \<and>
           info_origin_x (scenario_grid (cells scenario_map)) = - 1 \<and>
           info_origin_y (scenario_grid (cells scenario_map)) = - 1"
    by (simp add: scenario_grid_def)
  from explore_goal_world_coordinates [OF m c scenario_grid_reshape d scenario_choose] r
  have "explore ?s = Inr (?s\<lparr>visited_frontiers := {(3, 3, 0)}\<rparr>
           \<lparr>goals_sent := goals_sent ?s @ [(real 3 * 0.05 - 1, real 3 * 0.05 - 1)]\<rparr>)"
    by blast
  then show ?thesis by (simp add: g)
qed

text \<open>Claim C10. The robot position starts as \<open>(0, 0)\<close> and no event handled by the node
  changes it: in every state a session reaches it is \<open>(0, 0)\<close>, so the distance computed in
  detection and in selection for the cell \<open>(r, c)\<close> is the distance from \<open>(0, 0)\<close>.\<close>

theorem robot_position_never_updated:
  assumes "run events ExplorerNode_init = Inr s"
  shows "robot_position ExplorerNode_init = (0, 0) \<and> robot_position s = (0, 0) \<and>
         (\<forall>r c. distance_to (robot_position s) r c = sqrt (real (r\<^sup>2 + c\<^sup>2))) \<and>
         (\<forall>e s'. step e s = Inr s' \<longrightarrow> robot_position s' = (0, 0))"
proof -
  have i: "robot_position ExplorerNode_init = (0, 0)" by (simp add: ExplorerNode_init_def)
  from run_frame [OF assms] i have s: "robot_position s = (0, 0)" by simp
  have "distance_to (0, 0) r c = sqrt (real (r\<^sup>2 + c\<^sup>2))" for r c
    by (simp add: distance_to_def)
  moreover have "robot_position s' = (0, 0)" if "step e s = Inr s'" for e s'
    using step_frame [OF that] s by simp
  ultimately show ?thesis using i s by simp
qed

theorem robot_position_never_updated_witness:
  "run [MapMsg (scenario_grid (cells scenario_map)),
        CostmapMsg (scenario_grid (cells scenario_costmap)), TimerTick, GoalResponse True,
        NavigationComplete True] ExplorerNode_init =
     Inr ((with_grids (scenario_grid (cells scenario_map)) (scenario_grid (cells scenario_costmap)))
           \<lparr>visited_frontiers := {(3, 3, 0)},
            goals_sent := [(3 * 0.05 - 1, 3 * 0.05 - 1)]\<rparr>) \<and>
   robot_position ((with_grids (scenario_grid (cells scenario_map)) (scenario_grid (cells scenario_costmap)))
           \<lparr>visited_frontiers := {(3, 3, 0)},
            goals_sent := [(3 * 0.05 - 1, 3 * 0.05 - 1)]\<rparr>) = (0, 0)"
proof -
  have r: "run [MapMsg (scenario_grid (cells scenario_map)),
        CostmapMsg (scenario_grid (cells scenario_costmap)), TimerTick, GoalResponse True,
        NavigationComplete True] ExplorerNode_init =
     Inr ((with_grids (scenario_grid (cells scenario_map)) (scenario_grid (cells scenario_costmap)))
           \<lparr>visited_frontiers := {(3, 3, 0)},
            goals_sent := [(3 * 0.05 - 1, 3 * 0.05 - 1)]\<rparr>)"
    by (simp add: eval_defs scenario_grid_def scenario_map_def scenario_costmap_def
          goal_response_callback_def navigation_complete_callback_def)
  from robot_position_never_updated [OF r] r show ?thesis by blast
qed

text \<open>Claim C2. On a tick at which detection returns no frontier, \<open>explore\<close> looks up
  \<open>shutdown_robot\<close>, which the class defines as \<open>shudown_robot\<close>: the tick raises
  AttributeError and the shutdown method is never run.\<close>

theorem explore_completion_raises_attribute_error:
  assumes "map_data s = Some md" and "costmap_data s = Some cd"
    and "reshape (data md) (info_height md, info_width md) = Inr map_array"
    and "reshape (data cd) (info_height cd, info_width cd) = Inr costmap_array"
    and "find_frontiers (robot_position s) map_array costmap_array = Inr []"
  shows "explore s = Inl AttributeError \<and> step TimerTick s = Inl AttributeError"
  unfolding step.simps explore_ready [OF assms(1-4)] using assms(5) by simp

theorem explore_completion_raises_attribute_error_witness:
  "find_frontiers (0, 0) \<lparr>nrows = 3, ncols = 3, cells = replicate 9 0\<rparr>
      \<lparr>nrows = 3, ncols = 3, cells = replicate 9 0\<rparr> = Inr [] \<and>
   explore (with_grids complete_grid complete_grid) = Inl AttributeError"
proof -
  let ?s = "with_grids complete_grid complete_grid"
  let ?a = "\<lparr>nrows = 3, ncols = 3, cells = replicate 9 0\<rparr>"
  have m: "map_data ?s = Some complete_grid" and c: "costmap_data ?s = Some complete_grid"
    and rp: "robot_position ?s = (0, 0)"
    by (simp_all add: with_grids_def map_callback_def costmap_callback_def ExplorerNode_init_def)
  have r: "reshape (data complete_grid) (info_height complete_grid, info_width complete_grid) = Inr ?a"
    by (simp add: reshape_def complete_grid_def)
  have d: "find_frontiers (0, 0) ?a ?a = Inr []"
    by (simp add: eval_defs)
  from d rp have d': "find_frontiers (robot_position ?s) ?a ?a = Inr []" by simp
  from explore_completion_raises_attribute_error [OF m c r r d'] d show ?thesis by blast
qed

text \<open>Claim C1. On the 5 by 5 scenario map with a costmap of equal costs and the robot at
  \<open>(0, 0)\<close>, \<open>choose_frontier\<close> returns the frontier at \<open>(3, 3)\<close>, although the frontier at
  \<open>(1, 1)\<close> is strictly nearer: after the first unvisited frontier every later one of no
  higher cost replaces the choice, whatever its distance.\<close>

theorem choose_frontier_scenario_B_farthest:
  "find_frontiers (0, 0) scenario_map scenario_costmap = Inr scenario_frontiers \<and>
   robot_position ExplorerNode_init = (0, 0) \<and>
   fst (choose_frontier ExplorerNode_init scenario_frontiers) = Some (3, 3, 0) \<and>
   (1, 1, 0) \<in> set scenario_frontiers \<and>
   distance_to (0, 0) 1 1 < distance_to (0, 0) 3 3"
proof -
  have "fst (choose_frontier ExplorerNode_init scenario_frontiers) = Some (3, 3, 0)"
    by (simp add: eval_defs scenario_frontiers_def)
  moreover have "distance_to (0, 0) 1 1 < distance_to (0, 0) 3 3"
    by (simp add: distance_to_def)
  moreover have "(1, 1, 0) \<in> set scenario_frontiers" by (simp add: scenario_frontiers_def)
  moreover have "robot_position ExplorerNode_init = (0, 0)" by (simp add: ExplorerNode_init_def)
  ultimately show ?thesis using scenario_detect [of "(0, 0)"] by blast
qed

text \<open>Claim C5 as stated fails: with a 3 by 3 map and a 4 by 4 costmap the tick raises
  nothing, takes the cost 5 from the costmap's cell \<open>(1, 1)\<close> and sends a goal.\<close>

theorem explore_mismatch_silent_counterexample:
  "info_height mismatch_map \<noteq> info_height mismatch_costmap \<and>
   info_width mismatch_map \<noteq> info_width mismatch_costmap \<and>
   explore (with_grids mismatch_map mismatch_costmap) =
     Inr ((with_grids mismatch_map mismatch_costmap)
            \<lparr>visited_frontiers := {(1, 1, 5)}, goals_sent := [(1, 1)]\<rparr>)"
  by (simp add: eval_defs mismatch_map_def mismatch_costmap_def)

text \<open>Claim C5, as amended. With both grids received and each of the size its own header
  states, the tick raises IndexError, out of \<open>find_frontiers\<close> and out of \<open>explore\<close>,
  exactly when some frontier cell of the map lies outside the costmap's shape.\<close>

theorem explore_index_error_iff:
  assumes "map_data s = Some md" and "costmap_data s = Some cd"
    and "reshape (data md) (info_height md, info_width md) = Inr map_array"
    and "reshape (data cd) (info_height cd, info_width cd) = Inr costmap_array"
  shows "(explore s = Inl IndexError \<longleftrightarrow>
            (\<exists>r c. frontier_cell map_array r c \<and> \<not> (r < info_height cd \<and> c < info_width cd))) \<and>
         (find_frontiers (robot_position s) map_array costmap_array = Inl IndexError \<longleftrightarrow>
            (\<exists>r c. frontier_cell map_array r c \<and> \<not> (r < info_height cd \<and> c < info_width cd)))"
proof -
  have shape: "nrows costmap_array = info_height cd" "ncols costmap_array = info_width cd"
    using assms(4) by (auto simp: reshape_def split: if_splits)
  have ff: "find_frontiers (robot_position s) map_array costmap_array = Inl IndexError \<longleftrightarrow>
            (\<exists>r c. frontier_cell map_array r c \<and> \<not> (r < info_height cd \<and> c < info_width cd))"
    unfolding find_frontiers_eq scan_raises_iff shape by simp
  have "explore s = Inl IndexError \<longleftrightarrow>
        find_frontiers (robot_position s) map_array costmap_array = Inl IndexError"
    unfolding explore_ready [OF assms]
    by (auto split: sum.splits prod.splits option.splits)
  with ff show ?thesis by simp
qed

theorem explore_index_error_iff_witness:
  "explore (with_grids mismatch_map small_costmap) = Inl IndexError \<and>
   frontier_cell \<lparr>nrows = 3, ncols = 3, cells = data mismatch_map\<rparr> 1 1 \<and>
   \<not> (1 < info_height small_costmap \<and> 1 < info_width small_costmap)"
proof -
  let ?s = "with_grids mismatch_map small_costmap"
  have m: "map_data ?s = Some mismatch_map" and c: "costmap_data ?s = Some small_costmap"
    by (simp_all add: with_grids_def map_callback_def costmap_callback_def)
  have rm: "reshape (data mismatch_map) (info_height mismatch_map, info_width mismatch_map) =
              Inr \<lparr>nrows = 3, ncols = 3, cells = data mismatch_map\<rparr>"
    by (simp add: reshape_def mismatch_map_def)
  have rc: "reshape (data small_costmap) (info_height small_costmap, info_width small_costmap) =
              Inr \<lparr>nrows = 1, ncols = 1, cells = data small_costmap\<rparr>"
    by (simp add: reshape_def small_costmap_def)
  have f: "frontier_cell \<lparr>nrows = 3, ncols = 3, cells = data mismatch_map\<rparr> 1 1"
    by (simp add: frontier_cell_def cell_def neighbors8_def mismatch_map_def)
  have o: "\<not> ((1::nat) < info_height small_costmap \<and> (1::nat) < info_width small_costmap)"
    by (simp add: small_costmap_def)
  from f o have "\<exists>r c. frontier_cell \<lparr>nrows = 3, ncols = 3, cells = data mismatch_map\<rparr> r c \<and>
      \<not> (r < info_height small_costmap \<and> c < info_width small_costmap)" by blast
  with explore_index_error_iff [OF m c rm rc] have "explore ?s = Inl IndexError" by blast
  with f o show ?thesis by blast
qed

end
